theory Spec2Isabelle
  imports Complex_Main
begin

section \<open>Python values used by main.py\<close>

text \<open>
  A Python \<^verbatim>\<open>str\<close> is a sequence of Unicode code points, and \<^verbatim>\<open>len\<close>, slicing and
  \<^verbatim>\<open>strip\<close> count code points. The fallback replies of main.py start with U+26A0 U+FE0F,
  so a string is modelled as a list of code points; \<open>str\<close> embeds an ASCII literal.
\<close>

type_synonym codepoint = nat
type_synonym pystr = "codepoint list"

definition str :: "string \<Rightarrow> pystr" where
  "str s = map of_char s"

text \<open>The exceptions that the modelled statements can raise.\<close>

datatype exception =
    IndexError            \<comment> \<open>\<^verbatim>\<open>GATEWAYS[gateway_index]\<close> out of range\<close>
  | UnicodeEncodeError    \<comment> \<open>\<^verbatim>\<open>content.encode()\<close> on a lone surrogate\<close>
  | RequestException      \<comment> \<open>\<^verbatim>\<open>requests.post\<close> raising (network error, timeout)\<close>
  | ResponseError         \<comment> \<open>\<^verbatim>\<open>response.json()['choices'][0]['message']['content'].strip()\<close> raising\<close>

text \<open>\<^verbatim>\<open>str.isspace\<close> of a single code point: the white space that \<^verbatim>\<open>str.strip()\<close> removes.\<close>

definition isspace :: "codepoint \<Rightarrow> bool" where
  "isspace c \<longleftrightarrow>
     (0x09 \<le> c \<and> c \<le> 0x0D) \<or> (0x1C \<le> c \<and> c \<le> 0x20) \<or> c = 0x85 \<or> c = 0xA0 \<or>
     c = 0x1680 \<or> (0x2000 \<le> c \<and> c \<le> 0x200A) \<or> c = 0x2028 \<or> c = 0x2029 \<or>
     c = 0x202F \<or> c = 0x205F \<or> c = 0x3000"

definition strip :: "pystr \<Rightarrow> pystr" where
  "strip s = rev (dropWhile isspace (rev (dropWhile isspace s)))"

text \<open>
  \<^verbatim>\<open>str.lower()\<close>, code point by code point. The table holds ASCII, Latin-1 and U+0130
  (the one code point whose lower case is two code points); every other code point is
  left as it is. No code point outside \<open>A-Z\<close> has a lower case that begins with an ASCII
  letter other than \<open>i\<close> (U+0130) and \<open>k\<close> (U+212A), so a comparison of the lowered text
  with \<open>chat\<close> is computed as Python computes it.
\<close>

definition lower_cp :: "codepoint \<Rightarrow> pystr" where
  "lower_cp c =
     (if 0x41 \<le> c \<and> c \<le> 0x5A then [c + 0x20]
      else if 0xC0 \<le> c \<and> c \<le> 0xDE \<and> c \<noteq> 0xD7 then [c + 0x20]
      else if c = 0x130 then [0x69, 0x307]
      else [c])"

definition lower :: "pystr \<Rightarrow> pystr" where
  "lower s = concat (map lower_cp s)"

definition startswith :: "pystr \<Rightarrow> pystr \<Rightarrow> bool" where
  "startswith s p \<longleftrightarrow> take (length p) s = p"

text \<open>\<^verbatim>\<open>str.encode()\<close> (UTF-8, strict) raises on the surrogate code points.\<close>

definition is_surrogate :: "codepoint \<Rightarrow> bool" where
  "is_surrogate c \<longleftrightarrow> 0xD800 \<le> c \<and> c \<le> 0xDFFF"

definition encodable :: "pystr \<Rightarrow> bool" where
  "encodable s \<longleftrightarrow> \<not> list_ex is_surrogate s"

section \<open>Configuration and module constants\<close>

record gateway =
  API_KEY :: "pystr option"
  PROJECT_ID :: "pystr option"
  PHONE_ID :: "pystr option"

text \<open>
  What the module reads from its surroundings: the gateway list and the allow-list come
  from environment variables (main.py lists two gateways),
  \<open>sha256_hexdigest c\<close> stands for \<^verbatim>\<open>hashlib.sha256(c.encode()).hexdigest()\<close> on an
  encodable \<open>c\<close>, and \<open>telerivet_raises k\<close> tells whether the \<^verbatim>\<open>requests.post\<close> to
  Telerivet that follows \<open>k\<close> earlier ones raises (connection error, timeout).
\<close>

record env =
  GATEWAYS :: "gateway list"
  WHITELIST :: "pystr set"
  sha256_hexdigest :: "pystr \<Rightarrow> pystr"
  telerivet_raises :: "nat \<Rightarrow> bool"

definition TRIGGER_PREFIX :: pystr where
  "TRIGGER_PREFIX = str ''Chat''"

definition MAX_SMS_CHARS :: nat where
  "MAX_SMS_CHARS = 2400"

definition REPEAT_TIMEOUT :: real where
  "REPEAT_TIMEOUT = 30"

definition MAX_CONTEXT_LEN :: nat where
  "MAX_CONTEXT_LEN = 10"

text \<open>The two replies main.py substitutes for a model reply, and the truncation suffix.\<close>

definition unavailable_reply :: pystr where
  "unavailable_reply =
     [0x26A0, 0xFE0F] @ str '' DeepSeek is currently unavailable or quota has been exceeded.''"

definition api_error_reply :: pystr where
  "api_error_reply = [0x26A0, 0xFE0F] @ str '' DeepSeek API error. Try again later.''"

definition truncated_suffix :: pystr where
  "truncated_suffix = [0x0A] @ str ''[...truncated]''"

section \<open>Program state\<close>

datatype turn = Turn (role: pystr) (content: pystr)

text \<open>
  A \<^verbatim>\<open>threading.Timer\<close>: the time at which its interval ends, the argument of its
  callback (always \<^verbatim>\<open>send_pending_reply\<close>) and its \<^verbatim>\<open>finished\<close> event, which
  \<^verbatim>\<open>cancel()\<close> sets and which \<^verbatim>\<open>run()\<close> tests before it calls the callback.
\<close>

record timer =
  interval_end :: real
  args :: pystr
  finished :: bool

text \<open>One \<^verbatim>\<open>requests.post\<close> to Telerivet, answered or not.\<close>

record sms =
  to_number :: pystr
  message :: pystr
  via :: gateway

text \<open>
  The module's globals, followed by the two parts of the surroundings they act on: every
  Timer object created so far (a Timer is named by its position) and the posts made to
  Telerivet, oldest first. \<open>user_contexts\<close> is a \<^verbatim>\<open>defaultdict(list)\<close>: a sender
  never seen reads as the empty list.
\<close>

record state =
  gateway_index :: nat
  recent_messages :: "pystr \<rightharpoonup> pystr \<times> real"
  send_timers :: "pystr \<rightharpoonup> nat"
  pending_replies :: "pystr \<rightharpoonup> pystr"
  user_contexts :: "pystr \<Rightarrow> turn list"
  timers :: "timer list"
  outbox :: "sms list"

section \<open>Gateway selection and sending\<close>

definition pick_gateway :: "env \<Rightarrow> state \<Rightarrow> (exception + gateway) \<times> state" where
  "pick_gateway e st =
     (if gateway_index st < length (GATEWAYS e)
      then (Inr (GATEWAYS e ! gateway_index st),
            st\<lparr>gateway_index := (gateway_index st + 1) mod length (GATEWAYS e)\<rparr>)
      else (Inl IndexError, st))"

text \<open>
  \<^verbatim>\<open>send_sms\<close> picks a gateway and posts (line 171, outside any \<^verbatim>\<open>try\<close>). Every post
  that is made is recorded in \<open>outbox\<close>. When the post raises, the exception leaves
  \<^verbatim>\<open>send_sms\<close> after the cursor has moved; otherwise the answer of Telerivet is only
  printed.
\<close>

definition send_sms :: "env \<Rightarrow> pystr \<Rightarrow> pystr \<Rightarrow> state \<Rightarrow> (exception + unit) \<times> state" where
  "send_sms e to_num msg st =
     (case pick_gateway e st of
        (Inl x, st') \<Rightarrow> (Inl x, st')
      | (Inr gw, st') \<Rightarrow>
          (if telerivet_raises e (length (outbox st')) then Inl RequestException else Inr (),
           st'\<lparr>outbox := outbox st' @ [\<lparr>to_number = to_num, message = msg, via = gw\<rparr>]\<rparr>))"

text \<open>Calling \<^verbatim>\<open>pick_gateway\<close> \<open>n\<close> times in a row, collecting what it returns.\<close>

fun pick_gateways :: "nat \<Rightarrow> env \<Rightarrow> state \<Rightarrow> (exception + gateway list) \<times> state" where
  "pick_gateways 0 e st = (Inr [], st)"
| "pick_gateways (Suc n) e st =
     (case pick_gateway e st of
        (Inl x, st') \<Rightarrow> (Inl x, st')
      | (Inr gw, st') \<Rightarrow>
          (case pick_gateways n e st' of
             (Inl x, st'') \<Rightarrow> (Inl x, st'')
           | (Inr gws, st'') \<Rightarrow> (Inr (gw # gws), st'')))"

section \<open>The model query\<close>

text \<open>
  What \<^verbatim>\<open>requests.post\<close> to OpenRouter does: it raises, or it returns a response with a
  status code. \<open>Response c body\<close> carries in \<open>body\<close> the value of
  \<^verbatim>\<open>response.json()['choices'][0]['message']['content']\<close> when that expression yields a
  string, and \<open>None\<close> when evaluating it (or calling \<^verbatim>\<open>.strip()\<close> on it) raises.
\<close>

datatype backend = Raises | Response int "pystr option"

definition get_deepseek_response ::
    "backend \<Rightarrow> pystr \<Rightarrow> pystr \<Rightarrow> state \<Rightarrow> (exception + pystr) \<times> state" where
  "get_deepseek_response resp from_number prompt st =
     (let ctx1 = user_contexts st from_number @ [Turn (str ''user'') prompt];
          ctx2 = (if length ctx1 > MAX_CONTEXT_LEN
                  then drop (length ctx1 - MAX_CONTEXT_LEN) ctx1 else ctx1);
          st1 = st\<lparr>user_contexts := (user_contexts st)(from_number := ctx2)\<rparr>
      in case resp of
           Raises \<Rightarrow> (Inl RequestException, st1)
         | Response status_code body \<Rightarrow>
             if status_code = 200 then
               (case body of
                  None \<Rightarrow> (Inl ResponseError, st1)
                | Some c \<Rightarrow>
                    let reply = strip c;
                        st2 = st1\<lparr>user_contexts := (user_contexts st1)
                                (from_number := user_contexts st1 from_number
                                                  @ [Turn (str ''assistant'') reply])\<rparr>
                    in (Inr (if length reply > MAX_SMS_CHARS
                             then take MAX_SMS_CHARS reply @ truncated_suffix else reply),
                        st2))
             else (Inr api_error_reply, st1))"

section \<open>Debounced replies\<close>

text \<open>\<^verbatim>\<open>Timer.cancel()\<close> on the Timer at position \<open>i\<close>.\<close>

definition cancel :: "nat \<Rightarrow> state \<Rightarrow> state" where
  "cancel i st = st\<lparr>timers := (timers st)[i := (timers st ! i)\<lparr>finished := True\<rparr>]\<rparr>"

text \<open>Lines 108 to 112: the query, with every exception replaced by a fixed reply.\<close>

definition reply_or_fallback ::
    "backend \<Rightarrow> pystr \<Rightarrow> pystr \<Rightarrow> state \<Rightarrow> pystr \<times> state" where
  "reply_or_fallback resp from_number prompt st =
     (case get_deepseek_response resp from_number prompt st of
        (Inl x, st') \<Rightarrow> (unavailable_reply, st')
      | (Inr r, st') \<Rightarrow> (r, st'))"

text \<open>
  \<open>now\<close> is the clock when \<^verbatim>\<open>timer.start()\<close> runs; the Timer's interval of 2.0 seconds
  ends at \<open>now + 2\<close>.
\<close>

definition process_prompt_with_delay ::
    "backend \<Rightarrow> real \<Rightarrow> pystr \<Rightarrow> pystr \<Rightarrow> state \<Rightarrow> state" where
  "process_prompt_with_delay resp now from_number prompt st =
     (let (reply, st1) = reply_or_fallback resp from_number prompt st;
          st2 = st1\<lparr>pending_replies := (pending_replies st1)(from_number \<mapsto> reply)\<rparr>;
          st3 = (case send_timers st2 from_number of
                   None \<Rightarrow> st2
                 | Some i \<Rightarrow> cancel i st2);
          i = length (timers st3)
      in st3\<lparr>send_timers := (send_timers st3)(from_number \<mapsto> i),
             timers := timers st3
               @ [\<lparr>interval_end = now + 2, args = from_number, finished = False\<rparr>]\<rparr>)"

definition send_pending_reply :: "env \<Rightarrow> pystr \<Rightarrow> state \<Rightarrow> (exception + unit) \<times> state" where
  "send_pending_reply e from_number st =
     (let reply = pending_replies st from_number;
          st1 = st\<lparr>pending_replies := (pending_replies st)(from_number := None)\<rparr>;
          st2 = st1\<lparr>send_timers := (send_timers st1)(from_number := None)\<rparr>
      in case reply of
           None \<Rightarrow> (Inr (), st2)
         | Some r \<Rightarrow> if r \<noteq> [] then send_sms e from_number r st2 else (Inr (), st2))"

text \<open>
  \<^verbatim>\<open>Timer.run\<close> once the interval of Timer \<open>i\<close> has ended: the callback is called unless
  \<open>finished\<close> is set, and \<open>finished\<close> is set afterwards. An exception of the callback ends
  the Timer's thread and nothing else.
\<close>

definition fire :: "env \<Rightarrow> nat \<Rightarrow> state \<Rightarrow> state" where
  "fire e i st =
     (if i < length (timers st) \<and> \<not> finished (timers st ! i)
      then let st1 = snd (send_pending_reply e (args (timers st ! i)) st)
           in st1\<lparr>timers := (timers st1)[i := (timers st1 ! i)\<lparr>finished := True\<rparr>]\<rparr>
      else st)"

text \<open>
  Letting the clock reach \<open>t\<close>: the Timers whose interval has ended by \<open>t\<close> and that are
  not finished run, earliest first (Timers ending together in the order of their creation).
\<close>

definition due_timers :: "real \<Rightarrow> state \<Rightarrow> nat list" where
  "due_timers t st =
     sort_key (\<lambda>i. interval_end (timers st ! i))
       (filter (\<lambda>i. \<not> finished (timers st ! i) \<and> interval_end (timers st ! i) \<le> t)
          [0..<length (timers st)])"

definition advance :: "env \<Rightarrow> real \<Rightarrow> state \<Rightarrow> state" where
  "advance e t st = fold (fire e) (due_timers t st) st"

section \<open>The inbound route\<close>

datatype http_reply =
    Bad_Request              \<comment> \<open>400\<close>
  | Unauthorized             \<comment> \<open>403\<close>
  | Ignored                  \<comment> \<open>200\<close>
  | Duplicate_ignored        \<comment> \<open>200\<close>
  | OK                       \<comment> \<open>200\<close>
  | Internal_Server_Error    \<comment> \<open>500: Flask's answer to an exception of the view\<close>

text \<open>
  \<open>data\<close> is the decoded payload (form fields, or a JSON object of strings); \<open>now\<close> and
  \<open>now'\<close> are the two readings of \<^verbatim>\<open>time.time()\<close>, at the duplicate test and at the
  update of \<open>recent_messages\<close>. The result is the HTTP answer, the arguments of the
  thread started for \<^verbatim>\<open>process_prompt_with_delay\<close> (if one is started) and the new state.
\<close>

definition incoming ::
    "env \<Rightarrow> (pystr \<rightharpoonup> pystr) \<Rightarrow> real \<Rightarrow> real \<Rightarrow> state
       \<Rightarrow> http_reply \<times> (pystr \<times> pystr) option \<times> state" where
  "incoming e data now now' st =
     (if data = Map.empty then (Bad_Request, None, st)
      else
        let from_number = data (str ''from_number'');
            content = (case data (str ''content'') of None \<Rightarrow> [] | Some c \<Rightarrow> c)
        in case from_number of
             None \<Rightarrow> (Unauthorized, None, st)
           | Some f \<Rightarrow>
               if f = [] \<or> f \<notin> WHITELIST e then (Unauthorized, None, st)
               else if \<not> startswith (lower (strip content)) (lower TRIGGER_PREFIX)
               then (Ignored, None, st)
               else if \<not> encodable content then (Internal_Server_Error, None, st)
               else
                 let msg_hash = sha256_hexdigest e content;
                     (last_hash, last_time) =
                        (case recent_messages st f of
                           None \<Rightarrow> (None, 0)
                         | Some (h, t) \<Rightarrow> (Some h, t))
                 in if Some msg_hash = last_hash \<and> now - last_time < REPEAT_TIMEOUT
                    then (Duplicate_ignored, None, st)
                    else (OK,
                          Some (f, strip (drop (length TRIGGER_PREFIX) content)),
                          st\<lparr>recent_messages := (recent_messages st)(f \<mapsto> (msg_hash, now'))\<rparr>))"

section \<open>Observations and sample data\<close>

text \<open>The texts posted to Telerivet for one destination, oldest first.\<close>

definition sms_to :: "pystr \<Rightarrow> state \<Rightarrow> pystr list" where
  "sms_to s st = map message (filter (\<lambda>m. to_number m = s) (outbox st))"

text \<open>The globals as the module leaves them after import.\<close>

definition initial_state :: state where
  "initial_state =
     \<lparr>gateway_index = 0, recent_messages = Map.empty, send_timers = Map.empty,
      pending_replies = Map.empty, user_contexts = (\<lambda>_. []), timers = [], outbox = []\<rparr>"

text \<open>
  A sample configuration: two gateways, one allow-listed sender, the identity in the
  place of the digest (injective, as SHA-256 is taken to be), and a Telerivet whose posts
  never raise.
\<close>

definition gateway_1 :: gateway where
  "gateway_1 =
     \<lparr>API_KEY = Some (str ''key1''), PROJECT_ID = Some (str ''PJ1''),
      PHONE_ID = Some (str ''PN1'')\<rparr>"

definition gateway_2 :: gateway where
  "gateway_2 =
     \<lparr>API_KEY = Some (str ''key2''), PROJECT_ID = Some (str ''PJ2''),
      PHONE_ID = Some (str ''PN2'')\<rparr>"

definition alice :: pystr where
  "alice = str ''+15550100''"

definition sample_env :: env where
  "sample_env =
     \<lparr>GATEWAYS = [gateway_1, gateway_2], WHITELIST = {alice}, sha256_hexdigest = (\<lambda>c. c),
      telerivet_raises = (\<lambda>k. False)\<rparr>"

text \<open>A decoded payload with both fields.\<close>

definition payload :: "pystr \<Rightarrow> pystr \<Rightarrow> (pystr \<rightharpoonup> pystr)" where
  "payload s c = [str ''from_number'' \<mapsto> s, str ''content'' \<mapsto> c]"

text \<open>A context of \<open>n\<close> distinguishable user turns: turn \<open>i\<close> has the one-digit text \<open>i\<close>.\<close>

definition numbered_turns :: "nat \<Rightarrow> turn list" where
  "numbered_turns n = map (\<lambda>i. Turn (str ''user'') [0x30 + i]) [0..<n]"

section \<open>Notions used in the statements\<close>

text \<open>A query fails when the post raises, the status is not 200, or the reply cannot be read.\<close>

definition failed :: "backend \<Rightarrow> bool" where
  "failed resp = (case resp of Raises \<Rightarrow> True | Response c b \<Rightarrow> c \<noteq> 200 \<or> b = None)"

text \<open>What \<^verbatim>\<open>send_pending_reply\<close> posts for a popped value: nothing for \<open>None\<close> and for the empty text.\<close>

definition reply_sms :: "pystr option \<Rightarrow> pystr list" where
  "reply_sms p = (case p of None \<Rightarrow> [] | Some r \<Rightarrow> if r = [] then [] else [r])"

text \<open>Running Timer \<open>j\<close> cannot post to \<open>s\<close>: there is no such Timer, it is finished, or it belongs to another sender.\<close>

definition quiet :: "pystr \<Rightarrow> state \<Rightarrow> nat \<Rightarrow> bool" where
  "quiet s st j \<longleftrightarrow>
     length (timers st) \<le> j \<or> finished (timers st ! j) \<or> args (timers st ! j) \<noteq> s"

text \<open>
  The only Timer of \<open>s\<close> that may still run is the one held in \<open>send_timers\<close>. It holds
  of \<open>initial_state\<close> and is kept by \<^verbatim>\<open>process_prompt_with_delay\<close> and by the passing of time.
\<close>

definition registered :: "pystr \<Rightarrow> state \<Rightarrow> bool" where
  "registered s st \<longleftrightarrow>
     list_all (\<lambda>i. quiet s st i \<or> send_timers st s = Some i) [0..<length (timers st)]"

section \<open>Round-robin gateway selection\<close>

lemma Suc_mod_less: "(c::nat) < n \<Longrightarrow> Suc c mod n < n"
  by (cases n) simp_all

lemma pick_gateways_from:
  "gateway_index st < length (GATEWAYS e) \<Longrightarrow>
   pick_gateways n e st =
     (Inr (map (\<lambda>j. GATEWAYS e ! ((gateway_index st + j) mod length (GATEWAYS e))) [0..<n]),
      st\<lparr>gateway_index := (gateway_index st + n) mod length (GATEWAYS e)\<rparr>)"
proof (induction n arbitrary: st)
  case 0
  then show ?case by simp
next
  case (Suc n)
  let ?N = "length (GATEWAYS e)"
  let ?c = "gateway_index st"
  let ?st' = "st\<lparr>gateway_index := (?c + 1) mod ?N\<rparr>"
  have step: "pick_gateway e st = (Inr (GATEWAYS e ! ?c), ?st')"
    using Suc.prems by (simp add: pick_gateway_def)
  have lt: "gateway_index ?st' < ?N"
    using Suc.prems by (simp add: Suc_mod_less)
  have idx: "(Suc ?c mod ?N + j) mod ?N = Suc (?c + j) mod ?N" for j
    by (simp add: mod_add_left_eq)
  show ?case
    unfolding pick_gateways.simps step
    using Suc.IH [OF lt] Suc.prems
    by (simp add: idx map_upt_Suc del: upt_Suc)
qed

text \<open>
  Claim C7. With the cursor inside the list of \<open>N\<close> gateways, one call returns the gateway
  at the cursor and moves the cursor by one modulo \<open>N\<close>; \<open>N\<close> calls return every gateway
  once, in list order read cyclically from the cursor (the whole list when the cursor is
  0), and leave the state as it was; call \<open>N + 1\<close> returns the first gateway again.
\<close>

theorem pick_gateway_round_robin:
  assumes "gateway_index st < length (GATEWAYS e)"
  shows "pick_gateway e st =
           (Inr (GATEWAYS e ! gateway_index st),
            st\<lparr>gateway_index := (gateway_index st + 1) mod length (GATEWAYS e)\<rparr>)
       \<and> pick_gateways (length (GATEWAYS e)) e st =
           (Inr (rotate (gateway_index st) (GATEWAYS e)), st)
       \<and> pick_gateways (length (GATEWAYS e) + 1) e st =
           (Inr (rotate (gateway_index st) (GATEWAYS e) @ [GATEWAYS e ! gateway_index st]),
            st\<lparr>gateway_index := (gateway_index st + 1) mod length (GATEWAYS e)\<rparr>)"
proof -
  let ?G = "GATEWAYS e"
  let ?N = "length ?G"
  let ?c = "gateway_index st"
  have rot: "map (\<lambda>j. ?G ! ((?c + j) mod ?N)) [0..<?N] = rotate ?c ?G"
    by (rule nth_equalityI) (simp_all add: nth_rotate)
  have one: "pick_gateway e st = (Inr (?G ! ?c), st\<lparr>gateway_index := (?c + 1) mod ?N\<rparr>)"
    using assms by (simp add: pick_gateway_def)
  have all: "pick_gateways ?N e st = (Inr (rotate ?c ?G), st)"
    using assms by (simp add: pick_gateways_from rot)
  have more: "pick_gateways (?N + 1) e st =
      (Inr (rotate ?c ?G @ [?G ! ?c]), st\<lparr>gateway_index := (?c + 1) mod ?N\<rparr>)"
  proof -
    have "[0..<?N + 1] = [0..<?N] @ [?N]" by simp
    then have "map (\<lambda>j. ?G ! ((?c + j) mod ?N)) [0..<?N + 1] = rotate ?c ?G @ [?G ! ?c]"
      using assms rot by simp
    moreover have "(?c + (?N + 1)) mod ?N = (?c + 1) mod ?N"
      by (metis add.assoc add.commute mod_add_self1)
    ultimately show ?thesis
      using pick_gateways_from [OF assms, of "?N + 1"] by (simp only:)
  qed
  from one all more show ?thesis by blast
qed

theorem pick_gateway_round_robin_witness:
  "gateway_index (initial_state\<lparr>gateway_index := 1\<rparr>) < length (GATEWAYS sample_env)
   \<and> pick_gateway sample_env (initial_state\<lparr>gateway_index := 1\<rparr>) =
       (Inr gateway_2, initial_state)
   \<and> pick_gateways 2 sample_env (initial_state\<lparr>gateway_index := 1\<rparr>) =
       (Inr [gateway_2, gateway_1], initial_state\<lparr>gateway_index := 1\<rparr>)
   \<and> pick_gateways 3 sample_env (initial_state\<lparr>gateway_index := 1\<rparr>) =
       (Inr [gateway_2, gateway_1, gateway_2], initial_state)"
proof -
  have c: "gateway_index (initial_state\<lparr>gateway_index := 1\<rparr>) < length (GATEWAYS sample_env)"
    by (simp add: sample_env_def)
  have two: "length (GATEWAYS sample_env) = 2"
    by (simp add: sample_env_def)
  have three: "length (GATEWAYS sample_env) + 1 = 3"
    by (simp add: sample_env_def)
  have rot: "rotate 1 (GATEWAYS sample_env) = [gateway_2, gateway_1]"
    by (simp add: sample_env_def rotate1_def)
  have restored: "initial_state\<lparr>gateway_index := 0\<rparr> = initial_state"
    by (simp add: initial_state_def)
  show ?thesis
    using pick_gateway_round_robin [OF c] c
    unfolding two three
    by (simp add: rot restored) (simp add: sample_env_def)
qed

section \<open>The timer callback\<close>

lemma sms_to_timers_update: "sms_to s (st\<lparr>timers := ts\<rparr>) = sms_to s st"
  by (simp add: sms_to_def)

lemma send_pending_reply_timers:
  "timers (snd (send_pending_reply e a st)) = timers st"
  by (simp add: send_pending_reply_def send_sms_def pick_gateway_def Let_def split: option.splits)

lemma send_pending_reply_cursor:
  "gateway_index st < length (GATEWAYS e) \<Longrightarrow>
   gateway_index (snd (send_pending_reply e a st)) < length (GATEWAYS e)"
  by (simp add: send_pending_reply_def send_sms_def pick_gateway_def Let_def Suc_mod_less
      split: option.splits)

lemma send_pending_reply_other:
  assumes "a \<noteq> s"
  shows "pending_replies (snd (send_pending_reply e a st)) s = pending_replies st s"
    and "send_timers (snd (send_pending_reply e a st)) s = send_timers st s"
    and "sms_to s (snd (send_pending_reply e a st)) = sms_to s st"
  using assms
  by (simp_all add: send_pending_reply_def send_sms_def pick_gateway_def sms_to_def Let_def
      split: option.splits)

lemma send_pending_reply_self:
  assumes "gateway_index st < length (GATEWAYS e)"
  shows "sms_to s (snd (send_pending_reply e s st)) = sms_to s st @ reply_sms (pending_replies st s)"
    and "pending_replies (snd (send_pending_reply e s st)) s = None"
  using assms
  by (simp_all add: send_pending_reply_def send_sms_def pick_gateway_def sms_to_def Let_def
      reply_sms_def split: option.splits)

text \<open>
  Claim C9. When the reply pending for a sender is the empty string, the callback pops
  it (and the sender's Timer entry), returns normally and posts nothing: the test
  \<^verbatim>\<open>if reply:\<close> is on the value, not on the presence of the entry.
\<close>

theorem empty_reply_dropped:
  assumes "pending_replies st s = Some []"
  shows "send_pending_reply e s st =
           (Inr (), st\<lparr>pending_replies := (pending_replies st)(s := None),
                       send_timers := (send_timers st)(s := None)\<rparr>)
       \<and> pending_replies (snd (send_pending_reply e s st)) s = None
       \<and> outbox (snd (send_pending_reply e s st)) = outbox st"
proof -
  have "send_pending_reply e s st =
          (Inr (), st\<lparr>pending_replies := (pending_replies st)(s := None),
                      send_timers := (send_timers st)(s := None)\<rparr>)"
    using assms by (simp add: send_pending_reply_def Let_def)
  then show ?thesis by simp
qed

theorem empty_reply_dropped_witness:
  "pending_replies (initial_state\<lparr>pending_replies := [alice \<mapsto> []]\<rparr>) alice = Some []
   \<and> send_pending_reply sample_env alice (initial_state\<lparr>pending_replies := [alice \<mapsto> []]\<rparr>) =
       (Inr (), initial_state)"
proof -
  have p: "pending_replies (initial_state\<lparr>pending_replies := [alice \<mapsto> []]\<rparr>) alice = Some []"
    by simp
  show ?thesis
    using empty_reply_dropped [OF p, of sample_env] p
    by (simp add: initial_state_def)
qed

text \<open>
  As claim C8 states it, the callback hands whatever reply is pending to the delivery
  path. It does not for the empty reply: the entry is popped and nothing is posted.
\<close>

theorem timer_callback_empty_not_sent:
  "pending_replies (initial_state\<lparr>pending_replies := [alice \<mapsto> []]\<rparr>) alice = Some []
   \<and> pending_replies
        (snd (send_pending_reply sample_env alice
               (initial_state\<lparr>pending_replies := [alice \<mapsto> []]\<rparr>))) alice = None
   \<and> outbox
        (snd (send_pending_reply sample_env alice
               (initial_state\<lparr>pending_replies := [alice \<mapsto> []]\<rparr>))) = []"
  by (simp add: send_pending_reply_def Let_def initial_state_def)

text \<open>
  Claim C8, amended. With the cursor inside the gateway list, the callback for a sender
  leaves no reply pending for the sender. When no reply was pending or the reply is
  empty it posts nothing and returns normally. When the popped reply is not empty it
  makes exactly one post, of that reply, through the gateway at the cursor, and returns
  normally unless that post raises (the exception then ends the Timer's thread, with the
  reply already popped). A second run of the callback posts nothing more, so no pending
  reply is delivered twice.
\<close>

theorem timer_callback_takes_once:
  assumes "gateway_index st < length (GATEWAYS e)"
  shows "let st' = snd (send_pending_reply e s st) in
           fst (send_pending_reply e s st) =
             (case pending_replies st s of
                None \<Rightarrow> Inr ()
              | Some r \<Rightarrow> if r \<noteq> [] \<and> telerivet_raises e (length (outbox st))
                          then Inl RequestException else Inr ())
         \<and> pending_replies st' s = None
         \<and> outbox st' = outbox st @
             (case pending_replies st s of
                None \<Rightarrow> []
              | Some r \<Rightarrow> if r = [] then []
                          else [\<lparr>to_number = s, message = r, via = GATEWAYS e ! gateway_index st\<rparr>])
         \<and> outbox (snd (send_pending_reply e s st')) = outbox st'
         \<and> fst (send_pending_reply e s st') = Inr ()"
proof (cases "pending_replies st s")
  case None
  then show ?thesis
    by (simp add: send_pending_reply_def Let_def)
next
  case (Some r)
  show ?thesis
  proof (cases "r = []")
    case True
    with Some show ?thesis
      by (simp add: send_pending_reply_def Let_def)
  next
    case False
    with Some assms show ?thesis
      by (simp add: send_pending_reply_def send_sms_def pick_gateway_def Let_def)
  qed
qed

theorem timer_callback_takes_once_witness:
  "gateway_index (initial_state\<lparr>pending_replies := [alice \<mapsto> str ''Hi'']\<rparr>)
     < length (GATEWAYS sample_env)
   \<and> send_pending_reply sample_env alice
        (initial_state\<lparr>pending_replies := [alice \<mapsto> str ''Hi'']\<rparr>) =
       (Inr (),
        initial_state\<lparr>gateway_index := 1,
          outbox := [\<lparr>to_number = alice, message = str ''Hi'', via = gateway_1\<rparr>]\<rparr>)
   \<and> send_pending_reply sample_env alice
        (initial_state\<lparr>gateway_index := 1,
          outbox := [\<lparr>to_number = alice, message = str ''Hi'', via = gateway_1\<rparr>]\<rparr>) =
       (Inr (),
        initial_state\<lparr>gateway_index := 1,
          outbox := [\<lparr>to_number = alice, message = str ''Hi'', via = gateway_1\<rparr>]\<rparr>)
   \<and> fst (send_pending_reply (sample_env\<lparr>telerivet_raises := (\<lambda>k. True)\<rparr>) alice
            (initial_state\<lparr>pending_replies := [alice \<mapsto> str ''Hi'']\<rparr>)) =
       Inl RequestException
   \<and> pending_replies
        (snd (send_pending_reply (sample_env\<lparr>telerivet_raises := (\<lambda>k. True)\<rparr>) alice
               (initial_state\<lparr>pending_replies := [alice \<mapsto> str ''Hi'']\<rparr>))) alice = None"
proof -
  let ?st = "initial_state\<lparr>pending_replies := [alice \<mapsto> str ''Hi'']\<rparr>"
  let ?st' = "initial_state\<lparr>gateway_index := 1,
          outbox := [\<lparr>to_number = alice, message = str ''Hi'', via = gateway_1\<rparr>]\<rparr>"
  let ?bad = "sample_env\<lparr>telerivet_raises := (\<lambda>k. True)\<rparr>"
  have c: "gateway_index ?st < length (GATEWAYS sample_env)"
    by (simp add: initial_state_def sample_env_def)
  have c': "gateway_index ?st < length (GATEWAYS ?bad)"
    by (simp add: initial_state_def sample_env_def)
  have ne: "str ''Hi'' \<noteq> []"
    by (simp add: str_def)
  have snd_eq: "snd (send_pending_reply sample_env alice ?st) = ?st'"
    using ne
    by (simp add: send_pending_reply_def send_sms_def pick_gateway_def Let_def
        initial_state_def sample_env_def)
  have good: "send_pending_reply sample_env alice ?st = (Inr (), ?st')"
    using timer_callback_takes_once [OF c, of alice] ne snd_eq
    by (simp add: Let_def sample_env_def prod_eq_iff)
  have again: "send_pending_reply sample_env alice ?st' = (Inr (), ?st')"
    using timer_callback_takes_once [OF c, of alice] snd_eq
    by (simp add: Let_def prod_eq_iff)
       (simp add: send_pending_reply_def Let_def initial_state_def)
  have bad: "fst (send_pending_reply ?bad alice ?st) = Inl RequestException
           \<and> pending_replies (snd (send_pending_reply ?bad alice ?st)) alice = None"
    using timer_callback_takes_once [OF c', of alice] ne
    by (simp add: Let_def)
  from c good again bad show ?thesis
    by blast
qed

section \<open>Debouncing\<close>

lemma fire_timers:
  "timers (fire e j st) =
     (if j < length (timers st) \<and> \<not> finished (timers st ! j)
      then (timers st)[j := (timers st ! j)\<lparr>finished := True\<rparr>] else timers st)"
  by (simp add: fire_def Let_def send_pending_reply_timers)

lemma fire_cursor:
  "gateway_index st < length (GATEWAYS e) \<Longrightarrow>
   gateway_index (fire e j st) < length (GATEWAYS e)"
  by (simp add: fire_def Let_def send_pending_reply_cursor)

lemma fire_length: "length (timers (fire e j st)) = length (timers st)"
  by (simp add: fire_timers)

lemma fire_nth_other: "i \<noteq> j \<Longrightarrow> timers (fire e j st) ! i = timers st ! i"
  by (simp add: fire_timers)

lemma fire_args: "args (timers (fire e j st) ! i) = args (timers st ! i)"
  by (cases "i = j") (simp_all add: fire_timers)

lemma fire_finished:
  "finished (timers st ! i) \<Longrightarrow> finished (timers (fire e j st) ! i)"
  by (cases "i = j") (simp_all add: fire_timers)

lemma fire_quiet:
  assumes "quiet s st j"
  shows "pending_replies (fire e j st) s = pending_replies st s"
    and "send_timers (fire e j st) s = send_timers st s"
    and "sms_to s (fire e j st) = sms_to s st"
  using assms
  by (auto simp add: fire_def quiet_def Let_def send_pending_reply_other sms_to_timers_update)

lemma quiet_fire: "quiet s st k \<Longrightarrow> quiet s (fire e j st) k"
  unfolding quiet_def by (auto simp add: fire_length fire_args fire_finished)

lemma fold_fire_quiet:
  assumes "gateway_index st < length (GATEWAYS e)"
    and "list_all (quiet s st) js"
  shows "pending_replies (fold (fire e) js st) s = pending_replies st s
       \<and> send_timers (fold (fire e) js st) s = send_timers st s
       \<and> sms_to s (fold (fire e) js st) = sms_to s st
       \<and> gateway_index (fold (fire e) js st) < length (GATEWAYS e)
       \<and> length (timers (fold (fire e) js st)) = length (timers st)
       \<and> (\<forall>i. i \<notin> set js \<longrightarrow> timers (fold (fire e) js st) ! i = timers st ! i)
       \<and> (\<forall>i. quiet s st i \<longrightarrow> quiet s (fold (fire e) js st) i)"
  using assms
proof (induction js arbitrary: st)
  case Nil
  then show ?case by simp
next
  case (Cons j js)
  let ?st1 = "fire e j st"
  have q: "quiet s st j" and qs: "list_all (quiet s st) js"
    using Cons.prems(2) by simp_all
  have qs1: "list_all (quiet s ?st1) js"
    using qs by (simp add: list_all_iff quiet_fire)
  have gw1: "gateway_index ?st1 < length (GATEWAYS e)"
    using Cons.prems(1) by (rule fire_cursor)
  note ih = Cons.IH [OF gw1 qs1]
  show ?case
    using ih fire_quiet [OF q, of e]
    by (simp add: fire_length fire_nth_other quiet_fire)
qed

lemma fold_fire_one:
  assumes "gateway_index st < length (GATEWAYS e)"
    and "distinct js" and "i \<in> set js"
    and "i < length (timers st)" and "\<not> finished (timers st ! i)"
    and "args (timers st ! i) = s"
    and "list_all (\<lambda>j. j = i \<or> quiet s st j) js"
  shows "sms_to s (fold (fire e) js st) = sms_to s st @ reply_sms (pending_replies st s)"
  using assms
proof (induction js arbitrary: st)
  case Nil
  then show ?case by simp
next
  case (Cons j js)
  let ?st1 = "fire e j st"
  have gw1: "gateway_index ?st1 < length (GATEWAYS e)"
    using Cons.prems(1) by (rule fire_cursor)
  show ?case
  proof (cases "j = i")
    case True
    have notin: "i \<notin> set js" using Cons.prems(2) True by simp
    have "list_all (quiet s st) js"
      using Cons.prems(7) notin by (auto simp add: list_all_iff)
    then have qs1: "list_all (quiet s ?st1) js"
      by (simp add: list_all_iff quiet_fire)
    have sent: "sms_to s ?st1 = sms_to s st @ reply_sms (pending_replies st s)"
      using Cons.prems(1,4,5,6) True
      by (simp add: fire_def Let_def send_pending_reply_self sms_to_timers_update)
    show ?thesis
      using fold_fire_quiet [OF gw1 qs1] sent by simp
  next
    case False
    have q: "quiet s st j" using Cons.prems(7) False by simp
    have in_js: "i \<in> set js" using Cons.prems(3) False by simp
    have rest: "list_all (\<lambda>j. j = i \<or> quiet s ?st1 j) js"
      using Cons.prems(7) by (auto simp add: list_all_iff quiet_fire)
    have same: "timers ?st1 ! i = timers st ! i"
      using False by (simp add: fire_nth_other)
    have "sms_to s (fold (fire e) js ?st1) = sms_to s ?st1 @ reply_sms (pending_replies ?st1 s)"
      using Cons.prems(2,4,5,6) in_js rest same gw1
      by (intro Cons.IH) (simp_all add: fire_length)
    then show ?thesis
      using fire_quiet [OF q, of e] by simp
  qed
qed

lemma due_timers_set:
  "set (due_timers t st) =
     {i. i < length (timers st) \<and> \<not> finished (timers st ! i) \<and> interval_end (timers st ! i) \<le> t}"
  by (auto simp add: due_timers_def)

lemma due_timers_distinct: "distinct (due_timers t st)"
  by (simp add: due_timers_def)

lemma get_deepseek_response_frame:
  "\<exists>ctx. snd (get_deepseek_response resp s p st) = st\<lparr>user_contexts := ctx\<rparr>"
  by (auto simp add: get_deepseek_response_def Let_def split: backend.splits option.splits)

lemma reply_or_fallback_frame:
  "\<exists>ctx. snd (reply_or_fallback resp s p st) = st\<lparr>user_contexts := ctx\<rparr>"
proof -
  obtain ctx where "snd (get_deepseek_response resp s p st) = st\<lparr>user_contexts := ctx\<rparr>"
    using get_deepseek_response_frame by blast
  then show ?thesis
    by (cases "get_deepseek_response resp s p st")
       (auto simp add: reply_or_fallback_def split: sum.splits)
qed

lemma process_prompt_with_delay_fields:
  fixes resp now s p st
  defines "st' \<equiv> process_prompt_with_delay resp now s p st"
  shows "pending_replies st' = (pending_replies st)(s \<mapsto> fst (reply_or_fallback resp s p st))"
    and "send_timers st' = (send_timers st)(s \<mapsto> length (timers st))"
    and "outbox st' = outbox st"
    and "gateway_index st' = gateway_index st"
    and "timers st' =
           (case send_timers st s of
              None \<Rightarrow> timers st
            | Some i \<Rightarrow> (timers st)[i := (timers st ! i)\<lparr>finished := True\<rparr>])
           @ [\<lparr>interval_end = now + 2, args = s, finished = False\<rparr>]"
proof -
  obtain ctx where c: "snd (reply_or_fallback resp s p st) = st\<lparr>user_contexts := ctx\<rparr>"
    using reply_or_fallback_frame by blast
  show "pending_replies st' = (pending_replies st)(s \<mapsto> fst (reply_or_fallback resp s p st))"
    and "send_timers st' = (send_timers st)(s \<mapsto> length (timers st))"
    and "outbox st' = outbox st"
    and "gateway_index st' = gateway_index st"
    and "timers st' =
           (case send_timers st s of
              None \<Rightarrow> timers st
            | Some i \<Rightarrow> (timers st)[i := (timers st ! i)\<lparr>finished := True\<rparr>])
           @ [\<lparr>interval_end = now + 2, args = s, finished = False\<rparr>]"
    unfolding st'_def process_prompt_with_delay_def
    using c
    by (simp_all add: case_prod_beta Let_def cancel_def split: option.splits)
qed

lemma registeredD:
  "registered s st \<Longrightarrow> i < length (timers st) \<Longrightarrow> send_timers st s \<noteq> Some i \<Longrightarrow> quiet s st i"
  by (auto simp add: registered_def list_all_iff)

lemma quiet_after_schedule:
  assumes "registered s st" and "k \<noteq> length (timers st)"
  shows "quiet s (process_prompt_with_delay resp now s p st) k"
proof (cases "k < length (timers st)")
  case False
  then show ?thesis
    using assms(2)
    by (simp add: quiet_def process_prompt_with_delay_fields split: option.splits)
next
  case True
  show ?thesis
  proof (cases "send_timers st s = Some k")
    case True
    with \<open>k < length (timers st)\<close> show ?thesis
      by (simp add: quiet_def process_prompt_with_delay_fields nth_append)
  next
    case False
    with assms(1) True have q: "quiet s st k"
      by (simp add: registeredD)
    have upd_args:
      "args ((timers st)[i := (timers st ! i)\<lparr>finished := True\<rparr>] ! k) = args (timers st ! k)"
      for i
      using True by (cases "i = k") simp_all
    have upd_fin:
      "finished (timers st ! k) \<Longrightarrow>
       finished ((timers st)[i := (timers st ! i)\<lparr>finished := True\<rparr>] ! k)" for i
      using True by (cases "i = k") simp_all
    show ?thesis
      using True q
      by (auto simp add: quiet_def process_prompt_with_delay_fields nth_append upd_args upd_fin
          split: option.splits)
  qed
qed

lemma schedule_then_early:
  fixes e t resp now s p st
  assumes cur: "gateway_index st < length (GATEWAYS e)"
    and reg: "registered s st"
    and early: "t < now + 2"
  defines "st1 \<equiv> advance e t (process_prompt_with_delay resp now s p st)"
  shows "gateway_index st1 < length (GATEWAYS e)"
    and "registered s st1"
    and "sms_to s st1 = sms_to s st"
proof -
  let ?n = "length (timers st)"
  let ?st0 = "process_prompt_with_delay resp now s p st"
  have len0: "length (timers ?st0) = Suc ?n"
    by (simp add: process_prompt_with_delay_fields split: option.splits)
  have new: "interval_end (timers ?st0 ! ?n) = now + 2"
    by (simp add: process_prompt_with_delay_fields nth_append split: option.splits)
  have notdue: "?n \<notin> set (due_timers t ?st0)"
    using early new by (simp add: due_timers_set)
  have q: "list_all (quiet s ?st0) (due_timers t ?st0)"
    unfolding list_all_iff
  proof (intro ballI)
    fix x
    assume "x \<in> set (due_timers t ?st0)"
    with notdue have "x \<noteq> ?n" by auto
    then show "quiet s ?st0 x" by (rule quiet_after_schedule [OF reg])
  qed
  have cur0: "gateway_index ?st0 < length (GATEWAYS e)"
    using cur by (simp add: process_prompt_with_delay_fields)
  note f = fold_fire_quiet [OF cur0 q, folded advance_def, folded st1_def]
  show "gateway_index st1 < length (GATEWAYS e)"
    using f by simp
  show "sms_to s st1 = sms_to s st"
    using f by (simp add: sms_to_def process_prompt_with_delay_fields)
  have st: "send_timers st1 s = Some ?n"
    using f by (simp add: process_prompt_with_delay_fields)
  have len1: "length (timers st1) = Suc ?n"
    using f len0 by simp
  have "quiet s st1 i" if "i \<noteq> ?n" for i
    using f quiet_after_schedule [OF reg that] by blast
  then show "registered s st1"
    using st len1 by (auto simp add: registered_def list_all_iff)
qed

lemma schedule_then_late:
  assumes cur: "gateway_index st < length (GATEWAYS e)"
    and reg: "registered s st"
    and late: "now + 2 \<le> t"
  shows "sms_to s (advance e t (process_prompt_with_delay resp now s p st)) =
           sms_to s st @ reply_sms (Some (fst (reply_or_fallback resp s p st)))"
proof -
  let ?n = "length (timers st)"
  let ?st0 = "process_prompt_with_delay resp now s p st"
  have len0: "length (timers ?st0) = Suc ?n"
    by (simp add: process_prompt_with_delay_fields split: option.splits)
  have new: "timers ?st0 ! ?n = \<lparr>interval_end = now + 2, args = s, finished = False\<rparr>"
    by (simp add: process_prompt_with_delay_fields nth_append split: option.splits)
  have due: "?n \<in> set (due_timers t ?st0)"
    using late new len0 by (simp add: due_timers_set)
  have q: "list_all (\<lambda>j. j = ?n \<or> quiet s ?st0 j) (due_timers t ?st0)"
    unfolding list_all_iff
  proof (intro ballI)
    fix x
    show "x = ?n \<or> quiet s ?st0 x"
      using quiet_after_schedule [OF reg, of x] by blast
  qed
  have cur0: "gateway_index ?st0 < length (GATEWAYS e)"
    using cur by (simp add: process_prompt_with_delay_fields)
  have "sms_to s (fold (fire e) (due_timers t ?st0) ?st0) =
          sms_to s ?st0 @ reply_sms (pending_replies ?st0 s)"
    using cur0 due_timers_distinct due _ _ _ q
    by (rule fold_fire_one) (simp_all add: new len0)
  then show ?thesis
    by (simp add: advance_def sms_to_def process_prompt_with_delay_fields)
qed

text \<open>
  The two conditions under which the debounce statement is made hold of the initial
  globals and are kept by every cycle and by the passing of time.
\<close>

lemma registered_initial_state: "registered s initial_state"
  by (simp add: registered_def initial_state_def)

lemma registered_fire:
  assumes "registered s st"
  shows "registered s (fire e j st)"
  unfolding registered_def list_all_iff
proof (intro ballI)
  fix i
  assume "i \<in> set [0..<length (timers (fire e j st))]"
  then have i: "i < length (timers st)"
    by (simp add: fire_length)
  show "quiet s (fire e j st) i \<or> send_timers (fire e j st) s = Some i"
  proof (cases "quiet s st i")
    case True
    then show ?thesis by (simp add: quiet_fire)
  next
    case False
    with assms i have reg: "send_timers st s = Some i"
      using registeredD by blast
    show ?thesis
    proof (cases "j = i")
      case True
      with False i show ?thesis
        by (simp add: quiet_def fire_timers)
    next
      case False
      have "quiet s st j"
      proof (rule ccontr)
        assume nq: "\<not> quiet s st j"
        then have "j < length (timers st)" by (simp add: quiet_def)
        with assms nq reg have "Some j = Some i"
          using registeredD by fastforce
        with False show False by simp
      qed
      then show ?thesis
        using reg by (simp add: fire_quiet)
    qed
  qed
qed

lemma registered_advance:
  assumes "registered s st"
  shows "registered s (advance e t st)"
proof -
  have "registered s (fold (fire e) js st)" for js
    using assms by (induction js arbitrary: st) (simp_all add: registered_fire)
  then show ?thesis by (simp add: advance_def)
qed

lemma registered_process_prompt_with_delay:
  assumes "registered s st"
  shows "registered s (process_prompt_with_delay resp now a p st)"
  unfolding registered_def list_all_iff
proof (intro ballI)
  let ?st' = "process_prompt_with_delay resp now a p st"
  let ?n = "length (timers st)"
  fix i
  assume "i \<in> set [0..<length (timers ?st')]"
  then have i: "i \<le> ?n"
    by (auto simp add: process_prompt_with_delay_fields split: option.splits)
  show "quiet s ?st' i \<or> send_timers ?st' s = Some i"
  proof (cases "a = s")
    case True
    then show ?thesis
      using quiet_after_schedule [OF assms, of i resp now p]
      by (cases "i = ?n") (simp_all add: process_prompt_with_delay_fields)
  next
    case False
    show ?thesis
    proof (cases "i = ?n")
      case True
      with False show ?thesis
        by (simp add: quiet_def process_prompt_with_delay_fields nth_append split: option.splits)
    next
      case ne: False
      with i have lt: "i < ?n" by simp
      have upd_args:
        "args ((timers st)[k := (timers st ! k)\<lparr>finished := True\<rparr>] ! i) = args (timers st ! i)"
        for k
        using lt by (cases "k = i") simp_all
      have upd_fin:
        "finished (timers st ! i) \<Longrightarrow>
         finished ((timers st)[k := (timers st ! k)\<lparr>finished := True\<rparr>] ! i)" for k
        using lt by (cases "k = i") simp_all
      show ?thesis
      proof (cases "quiet s st i")
        case True
        with lt have "quiet s ?st' i"
          by (auto simp add: quiet_def process_prompt_with_delay_fields nth_append upd_args upd_fin
              split: option.splits)
        then show ?thesis by simp
      next
        case nq: False
        with assms lt have "send_timers st s = Some i"
          using registeredD by blast
        with False show ?thesis
          by (simp add: process_prompt_with_delay_fields)
      qed
    qed
  qed
qed

lemma advance_cursor:
  assumes "gateway_index st < length (GATEWAYS e)"
  shows "gateway_index (advance e t st) < length (GATEWAYS e)"
proof -
  have "gateway_index (fold (fire e) js st) < length (GATEWAYS e)" for js
    using assms by (induction js arbitrary: st) (simp_all add: fire_cursor)
  then show ?thesis by (simp add: advance_def)
qed

lemmas run_defs =
  advance_def due_timers_def fire_def send_pending_reply_def send_sms_def pick_gateway_def
  process_prompt_with_delay_def reply_or_fallback_def get_deepseek_response_def cancel_def
  strip_def isspace_def str_def initial_state_def sample_env_def alice_def
  MAX_CONTEXT_LEN_def MAX_SMS_CHARS_def Let_def

text \<open>
  As claim C4 states it, two cycles within the quiet period end in exactly one delivery.
  When the later reply is empty (the model answered with white space only) there is
  none: the first cycle's Timer is cancelled and the second Timer's callback drops the
  empty reply.
\<close>

theorem debounce_empty_later_reply:
  "outbox (advance sample_env 10
     (process_prompt_with_delay (Response 200 (Some (str '' ''))) 1 alice (str ''b'')
       (advance sample_env 1
         (process_prompt_with_delay (Response 200 (Some (str ''Hello''))) 0 alice (str ''a'')
            initial_state)))) = []"
  by (simp add: run_defs)

text \<open>
  Claim C4, amended. Start in a state whose cursor is inside the gateway list and in
  which the sender has no running Timer other than the registered one. If two cycles of
  \<^verbatim>\<open>process_prompt_with_delay\<close> for the sender reach their end at \<open>t1\<close> and
  \<open>t2\<close> with \<open>t1 \<le> t2 < t1 + 2\<close>, then once the clock has passed \<open>t2 + 2\<close> the
  sender has received exactly one new message, the later reply, when that reply is not
  empty, and no new message when it is empty. Each cycle and each callback runs as one
  step; Timers of other senders may run in between.
\<close>

theorem debounce_last_reply_wins:
  assumes cur: "gateway_index st < length (GATEWAYS e)"
    and reg: "registered s st"
    and "t1 \<le> t2" and "t2 < t1 + 2" and "t2 + 2 \<le> t"
  shows "let st1 = advance e t2 (process_prompt_with_delay resp1 t1 s p1 st);
             r2 = fst (reply_or_fallback resp2 s p2 st1);
             st2 = advance e t (process_prompt_with_delay resp2 t2 s p2 st1)
         in sms_to s st2 = sms_to s st @ (if r2 = [] then [] else [r2])"
  using schedule_then_late [OF schedule_then_early(1,2) [OF cur reg assms(4)] assms(5)]
    schedule_then_early(3) [OF cur reg assms(4)]
  by (simp add: Let_def reply_sms_def)

theorem debounce_last_reply_wins_witness:
  "gateway_index initial_state < length (GATEWAYS sample_env) \<and> registered alice initial_state
   \<and> (0::real) \<le> 1 \<and> (1::real) < 0 + 2 \<and> (1::real) + 2 \<le> 10
   \<and> sms_to alice (advance sample_env 10
       (process_prompt_with_delay (Response 200 (Some (str ''Second''))) 1 alice (str ''b'')
         (advance sample_env 1
           (process_prompt_with_delay (Response 200 (Some (str ''First''))) 0 alice (str ''a'')
              initial_state)))) = [str ''Second'']"
proof -
  have cur: "gateway_index initial_state < length (GATEWAYS sample_env)"
    by (simp add: initial_state_def sample_env_def)
  have reg: "registered alice initial_state"
    by (simp add: registered_def initial_state_def)
  have r2: "fst (reply_or_fallback (Response 200 (Some (str ''Second''))) alice (str ''b'') st) =
              str ''Second''" for st
    by (simp add: reply_or_fallback_def get_deepseek_response_def Let_def strip_def isspace_def
        str_def MAX_SMS_CHARS_def)
  have "sms_to alice initial_state = []"
    by (simp add: sms_to_def initial_state_def)
  with debounce_last_reply_wins [OF cur reg, of 0 1 10 "Response 200 (Some (str ''First''))"
      "str ''a''" "Response 200 (Some (str ''Second''))" "str ''b''"] r2
  have "sms_to alice (advance sample_env 10
       (process_prompt_with_delay (Response 200 (Some (str ''Second''))) 1 alice (str ''b'')
         (advance sample_env 1
           (process_prompt_with_delay (Response 200 (Some (str ''First''))) 0 alice (str ''a'')
              initial_state)))) = [str ''Second'']"
    by (simp add: Let_def str_def)
  with cur reg show ?thesis by simp
qed

section \<open>The inbound route\<close>

lemma incoming_past_gates:
  assumes "data (str ''from_number'') = Some s" and "data (str ''content'') = Some c"
    and "s \<noteq> []" and "s \<in> WHITELIST e"
    and "startswith (lower (strip c)) (lower TRIGGER_PREFIX)" and "encodable c"
  shows "incoming e data now now' st =
     (if (\<exists>h t. recent_messages st s = Some (h, t) \<and> h = sha256_hexdigest e c
                \<and> now - t < REPEAT_TIMEOUT)
      then (Duplicate_ignored, None, st)
      else (OK, Some (s, strip (drop (length TRIGGER_PREFIX) c)),
            st\<lparr>recent_messages := (recent_messages st)(s \<mapsto> (sha256_hexdigest e c, now'))\<rparr>))"
proof -
  have ne: "data \<noteq> Map.empty" using assms(1) by auto
  show ?thesis
    using assms ne
    by (cases "recent_messages st s") (auto simp add: incoming_def Let_def)
qed

lemmas text_defs =
  payload_def str_def alice_def sample_env_def strip_def isspace_def lower_def lower_cp_def
  startswith_def TRIGGER_PREFIX_def encodable_def is_surrogate_def

text \<open>
  Claim C2. For a message of an allow-listed sender that passes the prefix gate (and
  whose text can be encoded), the answer is \<open>Duplicate_ignored\<close> exactly when the sender
  has a record whose fingerprint is the digest of the text and whose time is less than
  \<open>REPEAT_TIMEOUT\<close> before \<open>now\<close>. A rejection changes nothing, so the record keeps its
  time. Every other message is accepted, also the first of a sender, and the record
  becomes the digest with the clock read at the update (\<open>now'\<close>, the second reading of
  \<^verbatim>\<open>time.time()\<close> in the same request).
\<close>

theorem dedup_guard:
  assumes "data (str ''from_number'') = Some s" and "data (str ''content'') = Some c"
    and "s \<noteq> []" and "s \<in> WHITELIST e"
    and "startswith (lower (strip c)) (lower TRIGGER_PREFIX)" and "encodable c"
  shows "(fst (incoming e data now now' st) = Duplicate_ignored \<longleftrightarrow>
            (\<exists>h t. recent_messages st s = Some (h, t) \<and> h = sha256_hexdigest e c
                  \<and> now - t < REPEAT_TIMEOUT))
       \<and> (fst (incoming e data now now' st) = Duplicate_ignored \<longrightarrow>
            incoming e data now now' st = (Duplicate_ignored, None, st))
       \<and> (fst (incoming e data now now' st) \<noteq> Duplicate_ignored \<longrightarrow>
            incoming e data now now' st =
              (OK, Some (s, strip (drop (length TRIGGER_PREFIX) c)),
               st\<lparr>recent_messages := (recent_messages st)(s \<mapsto> (sha256_hexdigest e c, now'))\<rparr>))"
  unfolding incoming_past_gates [OF assms]
  by simp

theorem dedup_guard_witness:
  "payload alice (str ''Chat hi'') (str ''from_number'') = Some alice
   \<and> payload alice (str ''Chat hi'') (str ''content'') = Some (str ''Chat hi'')
   \<and> alice \<noteq> [] \<and> alice \<in> WHITELIST sample_env
   \<and> startswith (lower (strip (str ''Chat hi''))) (lower TRIGGER_PREFIX)
   \<and> encodable (str ''Chat hi'')
   \<and> incoming sample_env (payload alice (str ''Chat hi'')) 100 101 initial_state =
       (OK, Some (alice, str ''hi''),
        initial_state\<lparr>recent_messages := [alice \<mapsto> (str ''Chat hi'', 101)]\<rparr>)
   \<and> incoming sample_env (payload alice (str ''Chat hi'')) 130 130
        (initial_state\<lparr>recent_messages := [alice \<mapsto> (str ''Chat hi'', 101)]\<rparr>) =
       (Duplicate_ignored, None,
        initial_state\<lparr>recent_messages := [alice \<mapsto> (str ''Chat hi'', 101)]\<rparr>)
   \<and> incoming sample_env (payload alice (str ''Chat hi'')) 131 132
        (initial_state\<lparr>recent_messages := [alice \<mapsto> (str ''Chat hi'', 101)]\<rparr>) =
       (OK, Some (alice, str ''hi''),
        initial_state\<lparr>recent_messages := [alice \<mapsto> (str ''Chat hi'', 132)]\<rparr>)"
proof -
  let ?d = "payload alice (str ''Chat hi'')"
  let ?st = "initial_state\<lparr>recent_messages := [alice \<mapsto> (str ''Chat hi'', 101)]\<rparr>"
  have h1: "?d (str ''from_number'') = Some alice"
    by (simp add: payload_def str_def)
  have h2: "?d (str ''content'') = Some (str ''Chat hi'')"
    by (simp add: payload_def str_def)
  have h3: "alice \<noteq> []"
    by (simp add: alice_def str_def)
  have h4: "alice \<in> WHITELIST sample_env"
    by (simp add: sample_env_def)
  have h5: "startswith (lower (strip (str ''Chat hi''))) (lower TRIGGER_PREFIX)"
    by (simp add: text_defs)
  have h6: "encodable (str ''Chat hi'')"
    by (simp add: text_defs)
  have p: "strip (drop (length TRIGGER_PREFIX) (str ''Chat hi'')) = str ''hi''"
    by (simp add: text_defs)
  have first: "incoming sample_env ?d 100 101 initial_state =
      (OK, Some (alice, str ''hi''), ?st)"
    using dedup_guard [OF h1 h2 h3 h4 h5 h6, of 100 101 initial_state]
    by (simp add: p) (simp add: initial_state_def sample_env_def)
  have again: "incoming sample_env ?d 130 130 ?st = (Duplicate_ignored, None, ?st)"
    using dedup_guard [OF h1 h2 h3 h4 h5 h6, of 130 130 ?st]
    by (simp add: REPEAT_TIMEOUT_def sample_env_def)
  have later: "incoming sample_env ?d 131 132 ?st =
      (OK, Some (alice, str ''hi''),
       initial_state\<lparr>recent_messages := [alice \<mapsto> (str ''Chat hi'', 132)]\<rparr>)"
    using dedup_guard [OF h1 h2 h3 h4 h5 h6, of 131 132 ?st]
    by (simp add: p REPEAT_TIMEOUT_def) (simp add: sample_env_def)
  from h1 h2 h3 h4 h5 h6 first again later show ?thesis
    by blast
qed

text \<open>
  Claim C3, evaluated where it fails. The gate tests the trimmed text, but the prompt is
  cut from the untrimmed one: \<^verbatim>\<open>content[len(TRIGGER_PREFIX):]\<close> removes the first four code
  points of the raw text. The raw text of two spaces followed by \<open>Chat hello\<close> passes the
  gate and gives the prompt \<open>at hello\<close>, not \<open>hello\<close>.
\<close>

theorem prompt_cut_from_untrimmed_text:
  "incoming sample_env (payload alice (str ''  Chat hello'')) 100 100 initial_state =
     (OK, Some (alice, str ''at hello''),
      initial_state\<lparr>recent_messages := [alice \<mapsto> (str ''  Chat hello'', 100)]\<rparr>)"
  by (simp add: incoming_def text_defs REPEAT_TIMEOUT_def initial_state_def Let_def)

text \<open>
  Claim C10. The fingerprint stored for a sender is the digest of the raw text. Take two
  messages of one allow-listed sender that pass the gate, give the same prompt and have
  different digests (as two different texts have under SHA-256, up to a collision).
  Whatever the four clock readings, after the first message has been handled (accepted
  or not) the record holds the digest of its raw text, and the second message is
  accepted and starts a thread with that same prompt.
\<close>

theorem raw_text_fingerprint:
  assumes "d1 (str ''from_number'') = Some s" and "d1 (str ''content'') = Some c1"
    and "d2 (str ''from_number'') = Some s" and "d2 (str ''content'') = Some c2"
    and "s \<noteq> []" and "s \<in> WHITELIST e"
    and "startswith (lower (strip c1)) (lower TRIGGER_PREFIX)" and "encodable c1"
    and "startswith (lower (strip c2)) (lower TRIGGER_PREFIX)" and "encodable c2"
    and "strip (drop (length TRIGGER_PREFIX) c1) = strip (drop (length TRIGGER_PREFIX) c2)"
    and "sha256_hexdigest e c1 \<noteq> sha256_hexdigest e c2"
  shows "let st1 = snd (snd (incoming e d1 t1 t1' st)) in
           (\<exists>t. recent_messages st1 s = Some (sha256_hexdigest e c1, t))
         \<and> incoming e d2 t2 t2' st1 =
             (OK, Some (s, strip (drop (length TRIGGER_PREFIX) c1)),
              st1\<lparr>recent_messages := (recent_messages st1)(s \<mapsto> (sha256_hexdigest e c2, t2'))\<rparr>)"
proof -
  note first = incoming_past_gates [OF assms(1,2,5,6,7,8), of t1 t1' st]
  note second = incoming_past_gates [OF assms(3,4,5,6,9,10), of t2 t2']
  show ?thesis
    unfolding Let_def second
    using assms(11,12) by (auto simp add: first)
qed

theorem raw_text_fingerprint_witness:
  "payload alice (str ''Chat hi'') (str ''from_number'') = Some alice
   \<and> payload alice (str ''Chat hi'') (str ''content'') = Some (str ''Chat hi'')
   \<and> payload alice (str ''chat hi '') (str ''from_number'') = Some alice
   \<and> payload alice (str ''chat hi '') (str ''content'') = Some (str ''chat hi '')
   \<and> alice \<noteq> [] \<and> alice \<in> WHITELIST sample_env
   \<and> startswith (lower (strip (str ''Chat hi''))) (lower TRIGGER_PREFIX)
   \<and> encodable (str ''Chat hi'')
   \<and> startswith (lower (strip (str ''chat hi ''))) (lower TRIGGER_PREFIX)
   \<and> encodable (str ''chat hi '')
   \<and> strip (drop (length TRIGGER_PREFIX) (str ''Chat hi'')) =
       strip (drop (length TRIGGER_PREFIX) (str ''chat hi ''))
   \<and> sha256_hexdigest sample_env (str ''Chat hi'') \<noteq> sha256_hexdigest sample_env (str ''chat hi '')
   \<and> fst (incoming sample_env (payload alice (str ''chat hi '')) 100 100
          (snd (snd (incoming sample_env (payload alice (str ''Chat hi'')) 100 100
                       initial_state)))) = OK
   \<and> fst (snd (incoming sample_env (payload alice (str ''chat hi '')) 100 100
          (snd (snd (incoming sample_env (payload alice (str ''Chat hi'')) 100 100
                       initial_state))))) = Some (alice, str ''hi'')"
proof -
  have h1: "payload alice (str ''Chat hi'') (str ''from_number'') = Some alice"
    and h2: "payload alice (str ''Chat hi'') (str ''content'') = Some (str ''Chat hi'')"
    and h3: "payload alice (str ''chat hi '') (str ''from_number'') = Some alice"
    and h4: "payload alice (str ''chat hi '') (str ''content'') = Some (str ''chat hi '')"
    by (simp_all add: payload_def str_def)
  have h5: "alice \<noteq> []"
    by (simp add: alice_def str_def)
  have h6: "alice \<in> WHITELIST sample_env"
    by (simp add: sample_env_def)
  have h7: "startswith (lower (strip (str ''Chat hi''))) (lower TRIGGER_PREFIX)"
    and h8: "encodable (str ''Chat hi'')"
    and h9: "startswith (lower (strip (str ''chat hi ''))) (lower TRIGGER_PREFIX)"
    and h10: "encodable (str ''chat hi '')"
    by (simp_all add: text_defs)
  have h11: "strip (drop (length TRIGGER_PREFIX) (str ''Chat hi'')) =
             strip (drop (length TRIGGER_PREFIX) (str ''chat hi ''))"
    by (simp add: text_defs)
  have h12: "sha256_hexdigest sample_env (str ''Chat hi'') \<noteq>
             sha256_hexdigest sample_env (str ''chat hi '')"
    by (simp add: sample_env_def str_def)
  have p: "strip (drop (length TRIGGER_PREFIX) (str ''Chat hi'')) = str ''hi''"
    by (simp add: text_defs)
  have "fst (incoming sample_env (payload alice (str ''chat hi '')) 100 100
          (snd (snd (incoming sample_env (payload alice (str ''Chat hi'')) 100 100
                       initial_state)))) = OK
     \<and> fst (snd (incoming sample_env (payload alice (str ''chat hi '')) 100 100
          (snd (snd (incoming sample_env (payload alice (str ''Chat hi'')) 100 100
                       initial_state))))) = Some (alice, str ''hi'')"
    using raw_text_fingerprint [OF h1 h2 h3 h4 h5 h6 h7 h8 h9 h10 h11 h12,
        of 100 100 initial_state 100 100]
    by (simp add: Let_def p)
  with h1 h2 h3 h4 h5 h6 h7 h8 h9 h10 h11 h12 show ?thesis
    by blast
qed

section \<open>The model query and the conversation context\<close>

lemma get_deepseek_response_failed:
  assumes "failed resp"
  shows "get_deepseek_response resp s p st =
     ((case resp of
         Raises \<Rightarrow> Inl RequestException
       | Response c b \<Rightarrow> if c = 200 then Inl ResponseError else Inr api_error_reply),
      st\<lparr>user_contexts := (user_contexts st)
           (s := drop (length (user_contexts st s @ [Turn (str ''user'') p]) - MAX_CONTEXT_LEN)
                   (user_contexts st s @ [Turn (str ''user'') p]))\<rparr>)"
  using assms
  by (auto simp add: failed_def get_deepseek_response_def Let_def
      split: backend.splits option.splits)

lemma get_deepseek_response_ok:
  "get_deepseek_response (Response 200 (Some c)) s p st =
     (Inr (if MAX_SMS_CHARS < length (strip c)
           then take MAX_SMS_CHARS (strip c) @ truncated_suffix else strip c),
      st\<lparr>user_contexts := (user_contexts st)
           (s := drop (length (user_contexts st s @ [Turn (str ''user'') p]) - MAX_CONTEXT_LEN)
                   (user_contexts st s @ [Turn (str ''user'') p])
                 @ [Turn (str ''assistant'') (strip c)])\<rparr>)"
  by (simp add: get_deepseek_response_def Let_def)

text \<open>
  What the code keeps of the bound: the context that is sent to the model, and the one
  left by a failed query, has at most \<open>MAX_CONTEXT_LEN\<close> turns; the one left by an
  answered query has at most one more.
\<close>

lemma context_length_after_query:
  "length (user_contexts (snd (get_deepseek_response resp s p st)) s) \<le> MAX_CONTEXT_LEN + 1"
  and "failed resp \<Longrightarrow>
       length (user_contexts (snd (get_deepseek_response resp s p st)) s) \<le> MAX_CONTEXT_LEN"
  by (auto simp add: failed_def get_deepseek_response_def Let_def MAX_CONTEXT_LEN_def
      split: backend.splits option.splits)

text \<open>
  Claim C1, evaluated where it fails. Only the append of the user turn is followed by
  the truncation; the append of the assistant turn (line 150) is not. A sender with nine
  turns has eleven after one answered query, and the next query then drops two turns at
  once: the oldest turn kept is the one that was third, not second.
\<close>

theorem context_exceeds_bound_after_reply:
  "length (user_contexts
     (snd (get_deepseek_response (Response 200 (Some (str ''ok''))) alice (str ''hi'')
            (initial_state\<lparr>user_contexts := (\<lambda>_. [])(alice := numbered_turns 9)\<rparr>))) alice) = 11
   \<and> hd (user_contexts
     (snd (get_deepseek_response (Response 200 (Some (str ''fine''))) alice (str ''more'')
       (snd (get_deepseek_response (Response 200 (Some (str ''ok''))) alice (str ''hi'')
            (initial_state\<lparr>user_contexts := (\<lambda>_. [])(alice := numbered_turns 9)\<rparr>))))) alice)
     = numbered_turns 9 ! 2"
  by (simp add: get_deepseek_response_ok numbered_turns_def MAX_CONTEXT_LEN_def upt_rec)

text \<open>
  As claim C5 states it, every failure yields one fixed reply. The code has two: a post
  that raises and a status other than 200 schedule different texts.
\<close>

theorem fallback_differs_by_failure:
  "pending_replies (process_prompt_with_delay Raises 0 alice (str ''hi'') initial_state) alice
     = Some unavailable_reply
   \<and> pending_replies
       (process_prompt_with_delay (Response 500 None) 0 alice (str ''hi'') initial_state) alice
     = Some api_error_reply
   \<and> unavailable_reply \<noteq> api_error_reply"
  by (simp add: process_prompt_with_delay_def reply_or_fallback_def get_deepseek_response_def
      Let_def initial_state_def unavailable_reply_def api_error_reply_def str_def)

text \<open>
  Claim C5, amended. For every failed query the cycle completes and schedules one of two
  fixed replies: \<open>api_error_reply\<close> when the backend answered with a status other than
  200, \<open>unavailable_reply\<close> when the post raised or the answer could not be read. The
  sender's context becomes the last \<open>MAX_CONTEXT_LEN\<close> turns of the old context followed
  by the user turn; no assistant turn is added, and no other sender's context changes.
\<close>

theorem backend_failure_fallback:
  assumes "failed resp"
  shows "let st' = process_prompt_with_delay resp now s p st;
             kept = user_contexts st s @ [Turn (str ''user'') p]
         in pending_replies st' s =
              Some (case resp of
                      Raises \<Rightarrow> unavailable_reply
                    | Response c b \<Rightarrow> if c = 200 then unavailable_reply else api_error_reply)
          \<and> user_contexts st' = (user_contexts st)(s := drop (length kept - MAX_CONTEXT_LEN) kept)"
proof -
  have r: "fst (reply_or_fallback resp s p st) =
             (case resp of
                Raises \<Rightarrow> unavailable_reply
              | Response c b \<Rightarrow> if c = 200 then unavailable_reply else api_error_reply)"
    by (simp add: reply_or_fallback_def get_deepseek_response_failed [OF assms]
        split: backend.splits)
  have c: "user_contexts (process_prompt_with_delay resp now s p st) =
             (user_contexts st)
               (s := drop (length (user_contexts st s @ [Turn (str ''user'') p]) - MAX_CONTEXT_LEN)
                       (user_contexts st s @ [Turn (str ''user'') p]))"
    by (simp add: process_prompt_with_delay_def reply_or_fallback_def cancel_def Let_def
        get_deepseek_response_failed [OF assms] split: backend.splits option.splits)
  show ?thesis
    using r c by (simp add: Let_def process_prompt_with_delay_fields)
qed

theorem backend_failure_fallback_witness:
  "failed (Response 503 None)
   \<and> pending_replies
       (process_prompt_with_delay (Response 503 None) 0 alice (str ''hi'') initial_state) alice
     = Some api_error_reply
   \<and> user_contexts
       (process_prompt_with_delay (Response 503 None) 0 alice (str ''hi'') initial_state) alice
     = [Turn (str ''user'') (str ''hi'')]
   \<and> pending_replies
       (process_prompt_with_delay (Response 503 None) 0 alice (str ''hi'') initial_state) alice
     = Some ([0x26A0, 0xFE0F] @ str '' DeepSeek API error. Try again later.'')
   \<and> pending_replies
       (process_prompt_with_delay Raises 0 alice (str ''hi'') initial_state) alice
     = Some ([0x26A0, 0xFE0F]
             @ str '' DeepSeek is currently unavailable or quota has been exceeded.'')"
proof -
  have f: "failed (Response 503 None)"
    by (simp add: failed_def)
  have g: "failed Raises"
    by (simp add: failed_def)
  have a: "pending_replies
       (process_prompt_with_delay (Response 503 None) 0 alice (str ''hi'') initial_state) alice
     = Some api_error_reply
   \<and> user_contexts
       (process_prompt_with_delay (Response 503 None) 0 alice (str ''hi'') initial_state) alice
     = [Turn (str ''user'') (str ''hi'')]"
    using backend_failure_fallback [OF f, of 0 alice "str ''hi''" initial_state]
    by (simp add: Let_def initial_state_def MAX_CONTEXT_LEN_def)
  have b: "pending_replies
       (process_prompt_with_delay Raises 0 alice (str ''hi'') initial_state) alice
     = Some unavailable_reply"
    using backend_failure_fallback [OF g, of 0 alice "str ''hi''" initial_state]
    by (simp add: Let_def)
  from f a b show ?thesis
    by (simp add: api_error_reply_def unavailable_reply_def)
qed

text \<open>
  Claim C6. For a response with status 200 whose text is \<open>c\<close>, the reply is \<open>c\<close> trimmed.
  When it has more than \<open>MAX_SMS_CHARS\<close> = 2400 code points, what the query returns and
  what is scheduled for delivery is its first 2400 code points followed by the marker of
  line 153, a line feed and \<open>[...truncated]\<close> (fifteen code points); otherwise it is the
  reply itself. The assistant turn appended to the sender's context carries the whole
  reply in both cases.
\<close>

theorem long_reply_truncated:
  "let reply = strip c;
       st' = process_prompt_with_delay (Response 200 (Some c)) now s p st;
       kept = user_contexts st s @ [Turn (str ''user'') p]
   in fst (get_deepseek_response (Response 200 (Some c)) s p st) =
        Inr (if MAX_SMS_CHARS < length reply then take MAX_SMS_CHARS reply @ truncated_suffix
             else reply)
    \<and> pending_replies st' s =
        Some (if MAX_SMS_CHARS < length reply then take MAX_SMS_CHARS reply @ truncated_suffix
              else reply)
    \<and> (MAX_SMS_CHARS < length reply \<longrightarrow> length (take MAX_SMS_CHARS reply) = MAX_SMS_CHARS)
    \<and> user_contexts st' s =
        drop (length kept - MAX_CONTEXT_LEN) kept @ [Turn (str ''assistant'') reply]
    \<and> MAX_SMS_CHARS = 2400
    \<and> truncated_suffix =
        [0x0A, 0x5B, 0x2E, 0x2E, 0x2E, 0x74, 0x72, 0x75, 0x6E, 0x63, 0x61, 0x74, 0x65, 0x64, 0x5D]
    \<and> truncated_suffix = 0x0A # str ''[...truncated]''
    \<and> (2400 < length reply \<longrightarrow>
         pending_replies st' s =
           Some (take 2400 reply @ 0x0A # str ''[...truncated]'')
         \<and> length (take 2400 reply @ 0x0A # str ''[...truncated]'') = 2415)
    \<and> (length reply \<le> 2400 \<longrightarrow> pending_replies st' s = Some reply)"
proof -
  have c: "user_contexts (process_prompt_with_delay (Response 200 (Some c)) now s p st) s =
             drop (length (user_contexts st s @ [Turn (str ''user'') p]) - MAX_CONTEXT_LEN)
               (user_contexts st s @ [Turn (str ''user'') p])
             @ [Turn (str ''assistant'') (strip c)]"
    by (simp add: process_prompt_with_delay_def reply_or_fallback_def cancel_def Let_def
        get_deepseek_response_ok split: option.splits)
  have m: "truncated_suffix =
        [0x0A, 0x5B, 0x2E, 0x2E, 0x2E, 0x74, 0x72, 0x75, 0x6E, 0x63, 0x61, 0x74, 0x65, 0x64, 0x5D]"
    and m': "truncated_suffix = 0x0A # str ''[...truncated]''"
    by (simp_all add: truncated_suffix_def str_def)
  have p: "pending_replies (process_prompt_with_delay (Response 200 (Some c)) now s p st) s =
             Some (if MAX_SMS_CHARS < length (strip c)
                   then take MAX_SMS_CHARS (strip c) @ truncated_suffix else strip c)"
    by (simp add: process_prompt_with_delay_fields reply_or_fallback_def
        get_deepseek_response_ok)
  have long: "2400 < length (strip c) \<Longrightarrow>
      pending_replies (process_prompt_with_delay (Response 200 (Some c)) now s p st) s =
        Some (take 2400 (strip c) @ 0x0A # str ''[...truncated]'')
      \<and> length (take 2400 (strip c) @ 0x0A # str ''[...truncated]'') = 2415"
    unfolding p by (simp add: MAX_SMS_CHARS_def m' [symmetric]) (simp add: m)
  have short: "length (strip c) \<le> 2400 \<Longrightarrow>
      pending_replies (process_prompt_with_delay (Response 200 (Some c)) now s p st) s =
        Some (strip c)"
    unfolding p by (simp add: MAX_SMS_CHARS_def)
  have n: "MAX_SMS_CHARS = 2400"
    by (simp add: MAX_SMS_CHARS_def)
  have base: "fst (get_deepseek_response (Response 200 (Some c)) s p st) =
        Inr (if MAX_SMS_CHARS < length (strip c)
             then take MAX_SMS_CHARS (strip c) @ truncated_suffix else strip c)
    \<and> (MAX_SMS_CHARS < length (strip c) \<longrightarrow>
         length (take MAX_SMS_CHARS (strip c)) = MAX_SMS_CHARS)"
    by (simp add: get_deepseek_response_ok)
  show ?thesis
    unfolding Let_def
    using base p c n m m' long short by blast
qed

theorem long_reply_truncated_witness:
  "MAX_SMS_CHARS < length (strip (replicate 2401 0x61))
   \<and> pending_replies
       (process_prompt_with_delay (Response 200 (Some (replicate 2401 0x61))) 0 alice (str ''hi'')
          initial_state) alice
     = Some (replicate 2400 0x61 @
             [0x0A, 0x5B, 0x2E, 0x2E, 0x2E, 0x74, 0x72, 0x75, 0x6E, 0x63, 0x61, 0x74, 0x65, 0x64, 0x5D])
   \<and> replicate 2400 0x61 @
       [0x0A, 0x5B, 0x2E, 0x2E, 0x2E, 0x74, 0x72, 0x75, 0x6E, 0x63, 0x61, 0x74, 0x65, 0x64, 0x5D]
     \<noteq> replicate 2400 (0x61 :: nat)
   \<and> user_contexts
       (process_prompt_with_delay (Response 200 (Some (replicate 2401 0x61))) 0 alice (str ''hi'')
          initial_state) alice
     = [Turn (str ''user'') (str ''hi''), Turn (str ''assistant'') (replicate 2401 0x61)]
   \<and> pending_replies
       (process_prompt_with_delay (Response 200 (Some (str '' Hello ''))) 0 alice (str ''hi'')
          initial_state) alice
     = Some (str ''Hello'')"
proof -
  have s: "strip (replicate 2401 0x61) = replicate 2401 0x61"
    by (simp add: strip_def isspace_def)
  have h: "strip (str '' Hello '') = str ''Hello''"
    by (simp add: strip_def isspace_def str_def)
  have long: "MAX_SMS_CHARS < length (strip (replicate 2401 0x61))
   \<and> pending_replies
       (process_prompt_with_delay (Response 200 (Some (replicate 2401 0x61))) 0 alice (str ''hi'')
          initial_state) alice
     = Some (replicate 2400 0x61 @
             [0x0A, 0x5B, 0x2E, 0x2E, 0x2E, 0x74, 0x72, 0x75, 0x6E, 0x63, 0x61, 0x74, 0x65, 0x64, 0x5D])
   \<and> user_contexts
       (process_prompt_with_delay (Response 200 (Some (replicate 2401 0x61))) 0 alice (str ''hi'')
          initial_state) alice
     = [Turn (str ''user'') (str ''hi''), Turn (str ''assistant'') (replicate 2401 0x61)]"
    using long_reply_truncated [of "replicate 2401 0x61" 0 alice "str ''hi''" initial_state]
    by (simp add: Let_def s str_def initial_state_def MAX_CONTEXT_LEN_def)
  have short: "pending_replies
       (process_prompt_with_delay (Response 200 (Some (str '' Hello ''))) 0 alice (str ''hi'')
          initial_state) alice
     = Some (str ''Hello'')"
    using long_reply_truncated [of "str '' Hello ''" 0 alice "str ''hi''" initial_state]
    by (simp add: Let_def h) (simp add: str_def)
  have differ: "replicate 2400 0x61 @
       [0x0A, 0x5B, 0x2E, 0x2E, 0x2E, 0x74, 0x72, 0x75, 0x6E, 0x63, 0x61, 0x74, 0x65, 0x64, 0x5D]
     \<noteq> replicate 2400 (0x61 :: nat)"
    by simp
  from long short differ show ?thesis
    by blast
qed

end
